theory Spec2Isabelle
  imports Main "HOL-Library.Word"
begin

section \<open>Python strings\<close>

text \<open>
  A Python \<open>str\<close> is modelled as a \<open>string\<close> whose characters stand for the code points
  below 256. On that range \<open>str.lower\<close>, \<open>str.strip\<close> and the regular-expression class
  \<open>\w\<close> are the tables below (CPython 3, Unicode database).
\<close>

definition isspace :: "char \<Rightarrow> bool" where
  \<comment> \<open>the characters removed by \<open>str.strip()\<close> without argument\<close>
  "isspace c = (of_char c \<in> {9, 10, 11, 12, 13, 28, 29, 30, 31, 32, 133, 160 :: nat})"

definition lower_char :: "char \<Rightarrow> char" where
  \<comment> \<open>A-Z and the capital letters 0xC0-0xDE (0xD7 is the multiplication sign)\<close>
  "lower_char c =
     (let n = of_char c :: nat
      in if (65 \<le> n \<and> n \<le> 90) \<or> (192 \<le> n \<and> n \<le> 222 \<and> n \<noteq> 215)
         then char_of (n + 32) else c)"

definition lower :: "string \<Rightarrow> string" where
  "lower s = map lower_char s"

definition upper_char :: "char \<Rightarrow> string" where
  \<comment> \<open>\<open>str.upper\<close>: a-z and 0xE0-0xFE (0xF7 is the division sign) have their capital in
      the range; the sharp s (0xDF) becomes two letters. The capitals of 0xB5 and 0xFF lie
      above 255, so these two characters are left as they are: like their capitals they are
      neither whitespace nor ASCII.\<close>
  "upper_char c =
     (let n = of_char c :: nat
      in if (97 \<le> n \<and> n \<le> 122) \<or> (224 \<le> n \<and> n \<le> 254 \<and> n \<noteq> 247)
         then [char_of (n - 32)]
         else if n = 223 then ''SS'' else [c])"

definition upper :: "string \<Rightarrow> string" where
  "upper s = concat (map upper_char s)"

definition strip :: "string \<Rightarrow> string" where
  \<comment> \<open>\<open>s.strip()\<close>\<close>
  "strip s = rev (dropWhile isspace (rev (dropWhile isspace s)))"

definition strip_chars :: "string \<Rightarrow> string \<Rightarrow> string" where
  \<comment> \<open>\<open>s.strip(chars)\<close>: every leading and trailing character that is in \<open>chars\<close>\<close>
  "strip_chars s chars =
     rev (dropWhile (\<lambda>c. c \<in> set chars) (rev (dropWhile (\<lambda>c. c \<in> set chars) s)))"

definition startswith :: "string \<Rightarrow> string \<Rightarrow> bool" where
  "startswith s p = (take (length p) s = p)"

fun contains :: "string \<Rightarrow> string \<Rightarrow> bool" where
  \<comment> \<open>\<open>w in s\<close> on strings: \<open>w\<close> occurs as a contiguous substring\<close>
  "contains w [] = (w = [])"
| "contains w (c # s) = (take (length w) (c # s) = w \<or> contains w s)"


section \<open>The read-only guard on the generated SQL\<close>

datatype guard_message =
    ReadOnlyViolation
    \<comment> \<open>"The AI Assistant is **read-only**. Only SELECT queries are allowed. Please use the
        admin interface for INSERT / UPDATE / DELETE."\<close>
  | ForbiddenCommand string
    \<comment> \<open>"The AI Assistant cannot run `W` commands. Use the admin dashboard for write or schema
        operations.", \<open>W\<close> being \<open>word.upper()\<close>\<close>
  | MultipleStatements
    \<comment> \<open>"Multiple SQL statements are not allowed in the AI Assistant."\<close>

text \<open>The returned dict: the keys \<open>message\<close> and \<open>sql\<close> are absent when nothing is blocked.\<close>

record guard_verdict =
  blocked :: bool
  message :: "guard_message option"
  blocked_sql :: "string option"

definition forbidden :: "string list" where
  "forbidden = [''insert'', ''update'', ''delete'', ''create'', ''drop'', ''alter'', ''truncate'']"

definition ai_sql_guard :: "string \<Rightarrow> guard_verdict" where
  "ai_sql_guard sql =
     (let sql_clean = strip (lower sql)
      in if \<not> startswith sql_clean ''select''
         then \<lparr>blocked = True, message = Some ReadOnlyViolation, blocked_sql = Some sql\<rparr>
         else
           (case find (\<lambda>word. contains word sql_clean) forbidden of
              Some word \<Rightarrow>
                \<lparr>blocked = True, message = Some (ForbiddenCommand (upper word)),
                 blocked_sql = Some sql\<rparr>
            | None \<Rightarrow>
                if contains '';'' (strip_chars sql_clean '';'')
                then \<lparr>blocked = True, message = Some MultipleStatements, blocked_sql = Some sql\<rparr>
                else \<lparr>blocked = False, message = None, blocked_sql = None\<rparr>))"


section \<open>Static role policy on the generated SQL\<close>

definition is_word_char :: "char \<Rightarrow> bool" where
  \<comment> \<open>the class \<open>\w\<close> of a \<open>str\<close> pattern: alphanumeric characters and the underscore\<close>
  "is_word_char c =
     (let n = of_char c :: nat
      in (48 \<le> n \<and> n \<le> 57) \<or> (65 \<le> n \<and> n \<le> 90) \<or> n = 95 \<or> (97 \<le> n \<and> n \<le> 122) \<or>
         n \<in> {170, 178, 179, 181, 185, 186, 188, 189, 190} \<or>
         (192 \<le> n \<and> n \<le> 214) \<or> (216 \<le> n \<and> n \<le> 246) \<or> 248 \<le> n)"

definition head_opt :: "string \<Rightarrow> char option" where
  "head_opt s = (case s of [] \<Rightarrow> None | c # _ \<Rightarrow> Some c)"

definition at_boundary :: "char option \<Rightarrow> char option \<Rightarrow> bool" where
  \<comment> \<open>\<open>\b\<close>: exactly one of the two neighbours is a word character; the start and the end
      of the text count as non-word\<close>
  "at_boundary prev nxt =
     ((case prev of None \<Rightarrow> False | Some c \<Rightarrow> is_word_char c)
      \<noteq> (case nxt of None \<Rightarrow> False | Some c \<Rightarrow> is_word_char c))"

definition match_word_here :: "char option \<Rightarrow> string \<Rightarrow> string \<Rightarrow> bool" where
  \<comment> \<open>the pattern \<open>\bw\b\<close> under \<open>re.IGNORECASE\<close>, tried at the start of \<open>s\<close>; \<open>prev\<close> is the
      character before \<open>s\<close> in the searched text\<close>
  "match_word_here prev w s =
     (let m = take (length w) s; rest = drop (length w) s
      in length m = length w \<and> lower m = lower w \<and>
         at_boundary prev (head_opt s) \<and>
         at_boundary (if m = [] then prev else Some (last m)) (head_opt rest))"

fun search_word_from :: "char option \<Rightarrow> string \<Rightarrow> string \<Rightarrow> bool" where
  "search_word_from prev w [] = match_word_here prev w []"
| "search_word_from prev w (c # s) =
     (match_word_here prev w (c # s) \<or> search_word_from (Some c) w s)"

definition re_search_word :: "string \<Rightarrow> string \<Rightarrow> bool" where
  \<comment> \<open>\<open>re.search(rf"\b{w}\b", sql, flags=re.IGNORECASE)\<close> finds a match\<close>
  "re_search_word w sql = search_word_from None w sql"

definition whole_word_in :: "string \<Rightarrow> string \<Rightarrow> bool" where
  \<comment> \<open>The specification's notion, for a lower-case name \<open>w\<close>: the text references \<open>w\<close> as a
      whole word, in any case. Some part of the text spells \<open>w\<close> up to case and has no word
      character next to it on either side.\<close>
  "whole_word_in w sql =
     (\<exists>pre mid post. sql = pre @ mid @ post \<and> lower mid = w \<and>
        (pre = [] \<or> \<not> is_word_char (last pre)) \<and> (post = [] \<or> \<not> is_word_char (hd post)))"

definition SENSITIVE_TABLES :: "string list" where
  "SENSITIVE_TABLES = [''login_credentials'']"

definition SENSITIVE_COLUMNS_ALWAYS :: "string list" where
  "SENSITIVE_COLUMNS_ALWAYS = [''password'']"

definition SENSITIVE_COLUMNS_BY_ROLE :: "string \<rightharpoonup> string list" where
  "SENSITIVE_COLUMNS_BY_ROLE =
     [''student'' \<mapsto> [''salary''], ''teacher'' \<mapsto> [], ''admin'' \<mapsto> []]"

datatype policy_message =
    StudentDenied
    \<comment> \<open>"Access Denied: As a student, you are not authorized to view this information. You can
        only ask about your own courses, grades, schedule, credits, or advisor."\<close>
  | TableDenied string
    \<comment> \<open>"Access to table 'tbl' is not allowed through the AI assistant."\<close>
  | ColumnDenied string
    \<comment> \<open>"Access to column 'col' is not allowed through the AI assistant."\<close>
  | RoleColumnDenied string string
    \<comment> \<open>"Users with role 'role' are not allowed to query column 'col'."\<close>

definition student_denied_message :: policy_message where
  "student_denied_message = StudentDenied"

definition is_sql_safe_for_role :: "string \<Rightarrow> string \<Rightarrow> string \<Rightarrow> policy_message option" where
  "is_sql_safe_for_role sql role username =
     (let role_lower = lower role
      in case find (\<lambda>tbl. re_search_word tbl sql) SENSITIVE_TABLES of
           Some tbl \<Rightarrow>
             Some (if role_lower = ''student'' then student_denied_message else TableDenied tbl)
         | None \<Rightarrow>
             (case find (\<lambda>col. re_search_word col sql) SENSITIVE_COLUMNS_ALWAYS of
                Some col \<Rightarrow>
                  Some (if role_lower = ''student'' then student_denied_message
                        else ColumnDenied col)
              | None \<Rightarrow>
                  (let blocked_cols =
                         (case SENSITIVE_COLUMNS_BY_ROLE role_lower of
                            None \<Rightarrow> [] | Some cols \<Rightarrow> cols)
                   in case find (\<lambda>col. re_search_word col sql) blocked_cols of
                        Some col \<Rightarrow>
                          Some (if role_lower = ''student'' then student_denied_message
                                else RoleColumnDenied role col)
                      | None \<Rightarrow> None)))"


section \<open>Row-level filter on the query result\<close>

text \<open>
  A value in a result row is what \<open>sqlite3\<close> returns: \<open>None\<close>, \<open>int\<close>, \<open>float\<close> (kept as its
  64 bits), \<open>str\<close> or \<open>bytes\<close>. A row is the dict built from it: its columns in order, each
  with its value; \<open>map_of\<close> is the lookup by column name.
\<close>

datatype sql_value =
    SqlNull
  | SqlInt int
  | SqlReal "64 word"
  | SqlText string
  | SqlBlob "8 word list"

type_synonym row = "(string \<times> sql_value) list"

definition other_student :: "sql_value \<Rightarrow> string \<Rightarrow> bool" where
  \<comment> \<open>\<open>isinstance(val, str) and val != username\<close>\<close>
  "other_student val username =
     (case val of SqlText v \<Rightarrow> v \<noteq> username | _ \<Rightarrow> False)"

definition other_instructor :: "sql_value \<Rightarrow> string \<Rightarrow> bool" where
  \<comment> \<open>\<open>isinstance(val, str) and val.startswith("T") and val != username\<close>\<close>
  "other_instructor val username =
     (case val of SqlText v \<Rightarrow> startswith v ''T'' \<and> v \<noteq> username | _ \<Rightarrow> False)"

definition keep_row :: "string \<Rightarrow> string \<Rightarrow> row \<Rightarrow> bool" where
  \<comment> \<open>the value of \<open>keep\<close> at the end of one pass through the loop body\<close>
  "keep_row role_l username r =
     (if role_l = ''student'' then
        (let keep = True;
             keep = (case map_of r ''ID'' of
                       None \<Rightarrow> keep
                     | Some val \<Rightarrow> if other_student val username then False else keep);
             keep = (case map_of r ''s_ID'' of
                       None \<Rightarrow> keep
                     | Some val \<Rightarrow> if val \<noteq> SqlText username then False else keep)
         in keep)
      else if role_l = ''teacher'' then
        (let keep = True;
             keep = (case map_of r ''ID'' of
                       None \<Rightarrow> keep
                     | Some val \<Rightarrow> if other_instructor val username then False else keep);
             keep = (case map_of r ''i_ID'' of
                       None \<Rightarrow> keep
                     | Some val \<Rightarrow> if other_instructor val username then False else keep)
         in keep)
      else True)"

fun filter_loop :: "string \<Rightarrow> string \<Rightarrow> row list \<Rightarrow> row list \<Rightarrow> row list" where
  \<comment> \<open>the \<open>for row in results\<close> loop, \<open>filtered\<close> being the list built so far\<close>
  "filter_loop role_l username [] filtered = filtered"
| "filter_loop role_l username (row # results) filtered =
     (let r = row
      in filter_loop role_l username results
           (if keep_row role_l username r then filtered @ [r] else filtered))"

definition post_filter_results_for_role :: "row list \<Rightarrow> string \<Rightarrow> string \<Rightarrow> row list" where
  "post_filter_results_for_role results role username =
     (let role_l = lower role
      in if role_l = ''admin'' then results
         else filter_loop role_l username results [])"


section \<open>The AI query endpoint\<close>

text \<open>
  The endpoint talks to two collaborators: the generation client and the database. Both are
  parameters of the model, and every call to them is recorded, in order, next to the
  response. An exception raised by a collaborator is a value.
\<close>

datatype exn =
    SqliteError string
  | APIError string
  | HTTPException nat string
  | OtherException string

record ai_query_data =
  data_username :: string
  data_role :: string
  data_query :: string

datatype prompt =
    SqlGenerationPrompt string string string string
    \<comment> \<open>the first prompt, a fixed text around role, username, schema description and
        question; sent with temperature 0.0\<close>
  | AnswerSynthesisPrompt string string "row list"
    \<comment> \<open>the second prompt, a fixed text around question, SQL and the filtered rows (one
        \<open>str(row)\<close> per line); sent with temperature 0.2\<close>

datatype call = ReadSchema | Generate prompt | Execute string

record world =
  client :: "(prompt \<Rightarrow> exn + string option) option"
    \<comment> \<open>\<open>None\<close> when the client was not initialised; otherwise what
        \<open>client.models.generate_content(...)\<close> does: it raises, or returns a response
        whose \<open>text\<close> is a string or \<open>None\<close>\<close>
  sqlite_master :: "exn + (string \<times> string) list"
    \<comment> \<open>name and definition of every table, or the error raised while reading them\<close>
  execute :: "string \<Rightarrow> exn + row list"
    \<comment> \<open>\<open>conn.execute(sql)\<close> followed by \<open>fetchall\<close>\<close>

datatype response_text =
    ReadOnlyRefusal
    \<comment> \<open>"AI Assistant is limited to **read-only** access. Write operations such as CREATE,
        UPDATE, DELETE, or ALTER are not allowed. Please use the admin dashboard for changes."\<close>
  | AIDisabled
    \<comment> \<open>"AI is currently disabled due to missing API key or connection error."\<close>
  | GuardRefusal guard_message
  | SelectOnly
    \<comment> \<open>"I can only execute SELECT queries for data retrieval."\<close>
  | PolicyRefusal policy_message
  | Answer string
  | DatabaseError exn
    \<comment> \<open>"Database error during query execution: {e}"\<close>
  | ApiFailure exn
    \<comment> \<open>"AI error: Failed to process query due to API issue. Details: {e}"\<close>
  | InternalError exn
    \<comment> \<open>"AI error: An internal error occurred. Details: {e}"\<close>

record ai_response =
  status :: string
  response :: response_text
  sql_query :: string

definition dangerous_keywords :: "string list" where
  "dangerous_keywords =
     [''drop'', ''delete'', ''update'', ''insert'', ''alter'', ''create'', ''truncate'']"

definition get_db_connection :: "exn + 'a \<Rightarrow> exn + 'a" where
  \<comment> \<open>the context manager around a database action: an \<open>sqlite3.Error\<close> leaves it as
      \<open>HTTPException(500, "Database connection failed")\<close>, anything else unchanged\<close>
  "get_db_connection body =
     (case body of
        Inl (SqliteError e) \<Rightarrow> Inl (HTTPException 500 ''Database connection failed'')
      | other \<Rightarrow> other)"

definition on_exception :: "exn \<Rightarrow> string option \<Rightarrow> ai_response" where
  \<comment> \<open>the three \<open>except\<close> clauses; \<open>sql\<close> is \<open>None\<close> while the local \<open>sql\<close> is unbound\<close>
  "on_exception e sql =
     (case e of
        SqliteError m \<Rightarrow>
          \<lparr>status = ''fail'', response = DatabaseError e,
           sql_query = (case sql of Some q \<Rightarrow> q | None \<Rightarrow> ''N/A'')\<rparr>
      | APIError m \<Rightarrow> \<lparr>status = ''fail'', response = ApiFailure e, sql_query = ''N/A''\<rparr>
      | _ \<Rightarrow> \<lparr>status = ''fail'', response = InternalError e, sql_query = ''N/A''\<rparr>)"

definition join :: "string \<Rightarrow> string list \<Rightarrow> string" where
  \<comment> \<open>\<open>sep.join(parts)\<close>\<close>
  "join sep parts = (case parts of [] \<Rightarrow> [] | p # ps \<Rightarrow> p @ concat (map (\<lambda>q. sep @ q) ps))"

definition schema_info_of :: "(string \<times> string) list \<Rightarrow> string" where
  "schema_info_of tables =
     (let visible_tables = filter (\<lambda>t. fst t \<notin> set SENSITIVE_TABLES) tables
      in join [CHR 0x0A]
           (map (\<lambda>t. ''Table: '' @ fst t @ [CHR 0x0A] @ ''Schema: '' @ snd t) visible_tables))"

definition text_strip :: "string option \<Rightarrow> exn + string" where
  \<comment> \<open>\<open>response.text.strip()\<close>, an \<open>AttributeError\<close> when the text is \<open>None\<close>\<close>
  "text_strip t =
     (case t of None \<Rightarrow> Inl (OtherException ''AttributeError'') | Some s \<Rightarrow> Inr (strip s))"

definition answer_step ::
  "world \<Rightarrow> (prompt \<Rightarrow> exn + string option) \<Rightarrow> ai_query_data \<Rightarrow> string \<Rightarrow> call list
     \<Rightarrow> ai_response \<times> call list" where
  \<comment> \<open>steps 3, 3b and 4: run the vetted query, filter the rows, synthesise the answer\<close>
  "answer_step w generate_content data sql calls =
     (case get_db_connection (execute w sql) of
        Inl e \<Rightarrow> (on_exception e (Some sql), calls @ [Execute sql])
      | Inr raw_results \<Rightarrow>
          (let results =
                 post_filter_results_for_role raw_results (data_role data) (data_username data);
               answer_synthesis_prompt = AnswerSynthesisPrompt (data_query data) sql results;
               calls' = calls @ [Execute sql, Generate answer_synthesis_prompt]
           in case generate_content answer_synthesis_prompt of
                Inl e \<Rightarrow> (on_exception e (Some sql), calls')
              | Inr answer_response \<Rightarrow>
                  (case text_strip answer_response of
                     Inl e \<Rightarrow> (on_exception e (Some sql), calls')
                   | Inr answer \<Rightarrow>
                       (\<lparr>status = ''success'', response = Answer answer, sql_query = sql\<rparr>,
                        calls'))))"

definition vet_step ::
  "world \<Rightarrow> (prompt \<Rightarrow> exn + string option) \<Rightarrow> ai_query_data \<Rightarrow> string \<Rightarrow> call list
     \<Rightarrow> ai_response \<times> call list" where
  \<comment> \<open>the checks between generation and execution\<close>
  "vet_step w generate_content data sql calls =
     (let guard = ai_sql_guard sql
      in if blocked guard then
           (case (message guard, blocked_sql guard) of
              (Some m, Some q) \<Rightarrow>
                (\<lparr>status = ''fail'', response = GuardRefusal m, sql_query = q\<rparr>, calls)
            | _ \<Rightarrow> (on_exception (OtherException ''KeyError'') (Some sql), calls))
         else
           (let normalized_sql = strip (upper sql)
            in if \<not> startswith normalized_sql ''SELECT'' then
                 (\<lparr>status = ''fail'', response = SelectOnly, sql_query = sql\<rparr>, calls)
               else
                 (case is_sql_safe_for_role sql (data_role data) (data_username data) of
                    Some error_msg \<Rightarrow>
                      (\<lparr>status = ''fail'', response = PolicyRefusal error_msg, sql_query = sql\<rparr>,
                       calls)
                  | None \<Rightarrow> answer_step w generate_content data sql calls)))"

definition generate_step ::
  "world \<Rightarrow> (prompt \<Rightarrow> exn + string option) \<Rightarrow> ai_query_data \<Rightarrow> ai_response \<times> call list" where
  \<comment> \<open>the \<open>try\<close> block: steps 1 and 2, then the rest\<close>
  "generate_step w generate_content data =
     (case get_db_connection (sqlite_master w) of
        Inl e \<Rightarrow> (on_exception e None, [ReadSchema])
      | Inr tables \<Rightarrow>
          (let schema_info = schema_info_of tables;
               sql_generation_prompt =
                 SqlGenerationPrompt (data_role data) (data_username data) schema_info
                   (data_query data);
               calls = [ReadSchema, Generate sql_generation_prompt]
           in case generate_content sql_generation_prompt of
                Inl e \<Rightarrow> (on_exception e None, calls)
              | Inr sql_response \<Rightarrow>
                  (case text_strip sql_response of
                     Inl e \<Rightarrow> (on_exception e None, calls)
                   | Inr sql \<Rightarrow> vet_step w generate_content data sql calls)))"

definition ai_query :: "world \<Rightarrow> ai_query_data \<Rightarrow> ai_response \<times> call list" where
  "ai_query w data =
     (let query_lower = lower (data_query data)
      in if list_ex (\<lambda>keyword. contains keyword query_lower) dangerous_keywords then
           (\<lparr>status = ''fail'', response = ReadOnlyRefusal, sql_query = ''N/A''\<rparr>, [])
         else
           (case client w of
              None \<Rightarrow> (\<lparr>status = ''fail'', response = AIDisabled, sql_query = ''N/A''\<rparr>, [])
            | Some generate_content \<Rightarrow> generate_step w generate_content data))"


section \<open>Facts about the string operations\<close>

lemma of_char_lower_char:
  "of_char (lower_char c) =
     (let n = of_char c :: nat
      in if (65 \<le> n \<and> n \<le> 90) \<or> (192 \<le> n \<and> n \<le> 222 \<and> n \<noteq> 215) then n + 32 else n)"
  by (simp add: lower_char_def Let_def)

lemma isspace_lower_char: "isspace (lower_char c) = isspace c"
  unfolding isspace_def of_char_lower_char Let_def by auto

lemma is_word_char_lower: "is_word_char (lower_char c) = is_word_char c"
  unfolding is_word_char_def of_char_lower_char Let_def by auto

lemma lower_char_semicolon: "lower_char c = CHR '';'' \<longleftrightarrow> c = CHR '';''"
proof -
  have l: "(lower_char c = CHR '';'') = (of_char (lower_char c) = (of_char (CHR '';'') :: nat))"
    by (simp only: of_char_eq_iff)
  have r: "(c = CHR '';'') = (of_char c = (of_char (CHR '';'') :: nat))"
    by (simp only: of_char_eq_iff)
  show ?thesis
    unfolding l r of_char_lower_char Let_def by auto
qed

lemma length_lower: "length (lower s) = length s"
  by (simp add: lower_def)

lemma dropWhile_map_lower: "dropWhile isspace (map lower_char s) = map lower_char (dropWhile isspace s)"
  by (induction s) (simp_all add: isspace_lower_char)

lemma strip_lower: "strip (lower s) = lower (strip s)"
  by (simp add: strip_def lower_def dropWhile_map_lower rev_map)

lemma dropWhile_keeps:
  "\<not> P x \<Longrightarrow> \<exists>a'. dropWhile P (a @ x # b) = a' @ x # b"
proof (induction a)
  case Nil
  then show ?case by simp
next
  case (Cons y a)
  then obtain a' where "dropWhile P (a @ x # b) = a' @ x # b" by blast
  then show ?case by (cases "P y") (auto intro: exI [of _ "y # a"])
qed

lemma strip_gen_keeps:
  assumes "\<not> P x" and "\<not> P y"
  shows "\<exists>a' b'. rev (dropWhile P (rev (dropWhile P (a @ x # m @ y # b)))) = a' @ x # m @ y # b'"
proof -
  obtain a' where 1: "dropWhile P (a @ x # m @ y # b) = a' @ x # m @ y # b"
    using dropWhile_keeps [of P x a "m @ y # b"] assms(1) by blast
  have "rev (a' @ x # m @ y # b) = rev b @ y # (rev m @ x # rev a')" by simp
  then obtain b' where 2: "dropWhile P (rev (a' @ x # m @ y # b)) = b' @ y # (rev m @ x # rev a')"
    using dropWhile_keeps [of P y "rev b" "rev m @ x # rev a'"] assms(2) by auto
  show ?thesis unfolding 1 2 by simp blast
qed

lemma contains_iff: "contains w s \<longleftrightarrow> (\<exists>a b. s = a @ w @ b)"
proof (induction s)
  case Nil
  then show ?case by auto
next
  case (Cons c s)
  show ?case
  proof
    assume "contains w (c # s)"
    then consider "take (length w) (c # s) = w" | "contains w s" by auto
    then show "\<exists>a b. c # s = a @ w @ b"
    proof cases
      case 1
      have "c # s = take (length w) (c # s) @ drop (length w) (c # s)"
        by (simp only: append_take_drop_id)
      then have "c # s = [] @ w @ drop (length w) (c # s)"
        using 1 by simp
      then show ?thesis by blast
    next
      case 2
      then obtain a b where "s = a @ w @ b" using Cons.IH by blast
      then have "c # s = (c # a) @ w @ b" by simp
      then show ?thesis by blast
    qed
  next
    assume "\<exists>a b. c # s = a @ w @ b"
    then obtain a b where ab: "c # s = a @ w @ b" by blast
    show "contains w (c # s)"
    proof (cases a)
      case Nil
      then have "take (length w) (c # s) = w" using ab by simp
      then show ?thesis by simp
    next
      case (Cons x a')
      then have "s = a' @ w @ b" using ab by simp
      then have "contains w s" using Cons.IH by blast
      then show ?thesis by simp
    qed
  qed
qed

lemma strip_is_infix: "\<exists>p q. s = p @ strip s @ q"
proof -
  let ?t = "dropWhile isspace s"
  have "rev (takeWhile isspace (rev ?t) @ dropWhile isspace (rev ?t)) = rev (rev ?t)"
    by (simp only: takeWhile_dropWhile_id)
  then have "rev (dropWhile isspace (rev ?t)) @ rev (takeWhile isspace (rev ?t)) = ?t"
    by (simp only: rev_append rev_rev_ident)
  then have "?t = strip s @ rev (takeWhile isspace (rev ?t))"
    by (simp only: strip_def)
  moreover have "s = takeWhile isspace s @ ?t" by simp
  ultimately have "s = takeWhile isspace s @ strip s @ rev (takeWhile isspace (rev ?t))"
    by simp
  then show ?thesis by blast
qed

lemma contains_strip_imp: "contains w (strip s) \<Longrightarrow> contains w s"
proof -
  assume "contains w (strip s)"
  then obtain a b where ab: "strip s = a @ w @ b" unfolding contains_iff by blast
  obtain p q where "s = p @ strip s @ q" using strip_is_infix by blast
  then have "s = (p @ a) @ w @ (b @ q)" using ab by simp
  then show ?thesis unfolding contains_iff by blast
qed

lemma contains_imp_strip:
  assumes "\<not> isspace x" and "\<not> isspace y" and "contains (x # m @ [y]) s"
  shows "contains (x # m @ [y]) (strip s)"
proof -
  obtain a b where "s = a @ (x # m @ [y]) @ b" using assms(3) unfolding contains_iff by blast
  then have s: "s = a @ x # m @ y # b" by simp
  obtain a' b' where "strip s = a' @ x # m @ y # b'"
    unfolding strip_def s using strip_gen_keeps [of isspace x y a m b] assms(1,2) by blast
  then have "strip s = a' @ (x # m @ [y]) @ b'" by simp
  then show ?thesis unfolding contains_iff by blast
qed

lemma two_ends: "2 \<le> length k \<Longrightarrow> k = hd k # butlast (tl k) @ [last k]"
proof -
  assume len: "2 \<le> length k"
  then obtain x t where k: "k = x # t" by (cases k) auto
  then have "t \<noteq> []" using len by auto
  then have "t = butlast t @ [last t]" by simp
  then show ?thesis using k \<open>t \<noteq> []\<close> by simp
qed

lemma whole_word_contains:
  assumes "whole_word_in k sql"
  shows "contains k (lower sql)"
proof -
  obtain pre mid post where "sql = pre @ mid @ post" "lower mid = k"
    using assms unfolding whole_word_in_def by blast
  then have "lower sql = lower pre @ k @ lower post"
    by (simp add: lower_def)
  then show ?thesis unfolding contains_iff by blast
qed


section \<open>The word search finds exactly the whole words\<close>

lemma search_word_from_iff:
  "search_word_from prev w s \<longleftrightarrow>
     (\<exists>pre rest. s = pre @ rest \<and>
        match_word_here (if pre = [] then prev else Some (last pre)) w rest)"
proof (induction s arbitrary: prev)
  case Nil
  then show ?case by simp
next
  case (Cons c s)
  show ?case
  proof
    assume "search_word_from prev w (c # s)"
    then consider "match_word_here prev w (c # s)" | "search_word_from (Some c) w s"
      by auto
    then show "\<exists>pre rest. c # s = pre @ rest \<and>
        match_word_here (if pre = [] then prev else Some (last pre)) w rest"
    proof cases
      case 1
      then have "c # s = [] @ (c # s) \<and>
          match_word_here (if ([]::string) = [] then prev else Some (last [])) w (c # s)"
        by simp
      then show ?thesis by blast
    next
      case 2
      then obtain pre rest where pr: "s = pre @ rest"
          "match_word_here (if pre = [] then Some c else Some (last pre)) w rest"
        using Cons.IH by blast
      then have "c # s = (c # pre) @ rest \<and>
          match_word_here (if c # pre = [] then prev else Some (last (c # pre))) w rest"
        by (cases pre) auto
      then show ?thesis by blast
    qed
  next
    assume "\<exists>pre rest. c # s = pre @ rest \<and>
        match_word_here (if pre = [] then prev else Some (last pre)) w rest"
    then obtain pre rest where pr: "c # s = pre @ rest"
        "match_word_here (if pre = [] then prev else Some (last pre)) w rest"
      by blast
    show "search_word_from prev w (c # s)"
    proof (cases pre)
      case Nil
      then have "rest = c # s" using pr(1) by simp
      then show ?thesis using pr(2) Nil by simp
    next
      case (Cons x pre')
      then have "s = pre' @ rest" and "x = c" using pr(1) by simp_all
      moreover have "match_word_here (if pre' = [] then Some c else Some (last pre')) w rest"
        using pr(2) Cons \<open>x = c\<close> by (cases pre') auto
      ultimately have "search_word_from (Some c) w s"
        using Cons.IH by blast
      then show ?thesis by simp
    qed
  qed
qed

lemma match_word_here_iff:
  assumes "w \<noteq> []" and "lower w = w" and "is_word_char (hd w)" and "is_word_char (last w)"
  shows "match_word_here prev w s \<longleftrightarrow>
     (\<exists>mid post. s = mid @ post \<and> lower mid = w \<and>
        (case prev of None \<Rightarrow> True | Some p \<Rightarrow> \<not> is_word_char p) \<and>
        (post = [] \<or> \<not> is_word_char (hd post)))"
proof -
  have ends: "is_word_char (hd mid) \<and> is_word_char (last mid) \<and> mid \<noteq> []"
    if "lower mid = w" for mid
  proof -
    have ne: "mid \<noteq> []" using that assms(1) by (auto simp: lower_def)
    have "hd w = lower_char (hd mid)" using that ne by (auto simp: lower_def hd_map)
    moreover have "last w = lower_char (last mid)" using that ne by (auto simp: lower_def last_map)
    ultimately show ?thesis using assms(3,4) ne by (simp add: is_word_char_lower)
  qed
  show ?thesis
  proof
    assume m: "match_word_here prev w s"
    let ?mid = "take (length w) s" and ?post = "drop (length w) s"
    have l: "length ?mid = length w" "lower ?mid = w"
      using m assms(2) by (simp_all add: match_word_here_def Let_def)
    have e: "is_word_char (hd ?mid)" "is_word_char (last ?mid)" "?mid \<noteq> []"
      using ends [OF l(2)] by blast+
    have sne: "s \<noteq> []" using e(3) by auto
    have hs: "head_opt s = Some (hd ?mid)"
      using sne assms(1) by (cases s) (auto simp: head_opt_def)
    have b1: "at_boundary prev (head_opt s)"
      and b2: "at_boundary (Some (last ?mid)) (head_opt ?post)"
      using m e(3) by (simp_all add: match_word_here_def Let_def)
    have p: "case prev of None \<Rightarrow> True | Some p \<Rightarrow> \<not> is_word_char p"
      using b1 e(1) unfolding hs by (auto simp: at_boundary_def split: option.splits)
    have q: "?post = [] \<or> \<not> is_word_char (hd ?post)"
      using b2 e(2) by (cases ?post) (auto simp: at_boundary_def head_opt_def)
    have "s = ?mid @ ?post" by simp
    then show "\<exists>mid post. s = mid @ post \<and> lower mid = w \<and>
        (case prev of None \<Rightarrow> True | Some p \<Rightarrow> \<not> is_word_char p) \<and>
        (post = [] \<or> \<not> is_word_char (hd post))"
      using l(2) p q by blast
  next
    assume "\<exists>mid post. s = mid @ post \<and> lower mid = w \<and>
        (case prev of None \<Rightarrow> True | Some p \<Rightarrow> \<not> is_word_char p) \<and>
        (post = [] \<or> \<not> is_word_char (hd post))"
    then obtain mid post where mp: "s = mid @ post" "lower mid = w"
        "case prev of None \<Rightarrow> True | Some p \<Rightarrow> \<not> is_word_char p"
        "post = [] \<or> \<not> is_word_char (hd post)"
      by blast
    have len: "length mid = length w" using mp(2) length_lower [of mid] by simp
    have e: "is_word_char (hd mid)" "is_word_char (last mid)" "mid \<noteq> []"
      using ends [OF mp(2)] by blast+
    have t: "take (length w) s = mid" "drop (length w) s = post"
      using mp(1) len by simp_all
    have hs: "head_opt s = Some (hd mid)" using mp(1) e(3) by (cases mid) (auto simp: head_opt_def)
    have b1: "at_boundary prev (head_opt s)"
      using mp(3) e(1) unfolding hs by (auto simp: at_boundary_def split: option.splits)
    have b2: "at_boundary (Some (last mid)) (head_opt post)"
      using mp(4) e(2) by (cases post) (auto simp: at_boundary_def head_opt_def)
    show "match_word_here prev w s"
      unfolding match_word_here_def Let_def t
      using len mp(2) assms(2) e(3) b1 b2 by simp
  qed
qed

lemma re_search_word_iff:
  assumes "w \<noteq> []" and "lower w = w" and "is_word_char (hd w)" and "is_word_char (last w)"
  shows "re_search_word w sql \<longleftrightarrow> whole_word_in w sql"
proof
  assume "re_search_word w sql"
  then obtain pre rest where pr: "sql = pre @ rest"
      "match_word_here (if pre = [] then None else Some (last pre)) w rest"
    unfolding re_search_word_def search_word_from_iff by blast
  then obtain mid post where mp: "rest = mid @ post" "lower mid = w"
      "case (if pre = [] then None else Some (last pre)) of
         None \<Rightarrow> True | Some p \<Rightarrow> \<not> is_word_char p"
      "post = [] \<or> \<not> is_word_char (hd post)"
    unfolding match_word_here_iff [OF assms] by blast
  have "pre = [] \<or> \<not> is_word_char (last pre)"
    using mp(3) by (cases "pre = []") simp_all
  then show "whole_word_in w sql"
    unfolding whole_word_in_def using pr(1) mp(1,2,4) by blast
next
  assume "whole_word_in w sql"
  then obtain pre mid post where mp: "sql = pre @ mid @ post" "lower mid = w"
      "pre = [] \<or> \<not> is_word_char (last pre)" "post = [] \<or> \<not> is_word_char (hd post)"
    unfolding whole_word_in_def by blast
  have "case (if pre = [] then None else Some (last pre)) of
         None \<Rightarrow> True | Some p \<Rightarrow> \<not> is_word_char p"
    using mp(3) by (cases "pre = []") simp_all
  then have "match_word_here (if pre = [] then None else Some (last pre)) w (mid @ post)"
    unfolding match_word_here_iff [OF assms] using mp(2,4) by blast
  then show "re_search_word w sql"
    unfolding re_search_word_def search_word_from_iff using mp(1) by blast
qed

lemma search_login_credentials:
  "re_search_word ''login_credentials'' sql = whole_word_in ''login_credentials'' sql"
  by (rule re_search_word_iff) (simp_all add: lower_def lower_char_def is_word_char_def)

lemma search_password:
  "re_search_word ''password'' sql = whole_word_in ''password'' sql"
  by (rule re_search_word_iff) (simp_all add: lower_def lower_char_def is_word_char_def)

lemma search_drop:
  "re_search_word ''drop'' sql = whole_word_in ''drop'' sql"
  by (rule re_search_word_iff) (simp_all add: lower_def lower_char_def is_word_char_def)


section \<open>Facts about the guard\<close>

lemma forbidden_ends:
  "list_all (\<lambda>k. 2 \<le> length k \<and> \<not> isspace (hd k) \<and> \<not> isspace (last k)) forbidden"
  by (simp add: forbidden_def isspace_def)

lemma forbidden_shape:
  assumes "k \<in> set forbidden"
  shows "\<exists>x m y. k = x # m @ [y] \<and> \<not> isspace x \<and> \<not> isspace y"
proof -
  have "2 \<le> length k \<and> \<not> isspace (hd k) \<and> \<not> isspace (last k)"
    using forbidden_ends assms unfolding list_all_iff by blast
  then show ?thesis using two_ends [of k] by blast
qed

lemma forbidden_strip:
  assumes "k \<in> set forbidden"
  shows "contains k (strip s) = contains k s"
proof -
  obtain x m y where "k = x # m @ [y]" "\<not> isspace x" "\<not> isspace y"
    using forbidden_shape [OF assms] by blast
  then show ?thesis
    using contains_imp_strip [of x y m s] contains_strip_imp [of k s] by blast
qed

lemma forbidden_clean:
  "k \<in> set forbidden \<Longrightarrow> contains k (strip (lower sql)) = contains k (lower sql)"
  by (rule forbidden_strip)

lemma guard_not_select:
  "\<not> startswith (strip (lower sql)) ''select'' \<Longrightarrow>
     ai_sql_guard sql =
       \<lparr>blocked = True, message = Some ReadOnlyViolation, blocked_sql = Some sql\<rparr>"
  by (simp add: ai_sql_guard_def)

lemma guard_keyword:
  "startswith (strip (lower sql)) ''select'' \<Longrightarrow>
   find (\<lambda>word. contains word (strip (lower sql))) forbidden = Some k \<Longrightarrow>
     ai_sql_guard sql =
       \<lparr>blocked = True, message = Some (ForbiddenCommand (upper k)), blocked_sql = Some sql\<rparr>"
  by (simp add: ai_sql_guard_def)

lemma guard_rest:
  "startswith (strip (lower sql)) ''select'' \<Longrightarrow>
   find (\<lambda>word. contains word (strip (lower sql))) forbidden = None \<Longrightarrow>
     ai_sql_guard sql =
       (if contains '';'' (strip_chars (strip (lower sql)) '';'')
        then \<lparr>blocked = True, message = Some MultipleStatements, blocked_sql = Some sql\<rparr>
        else \<lparr>blocked = False, message = None, blocked_sql = None\<rparr>)"
  by (simp add: ai_sql_guard_def)

lemma find_forbidden:
  "find (\<lambda>word. contains word (strip (lower sql))) forbidden = Some k \<longleftrightarrow>
     (\<exists>i < length forbidden. k = forbidden ! i \<and> contains (forbidden ! i) (lower sql) \<and>
         (\<forall>j < i. \<not> contains (forbidden ! j) (lower sql)))"
proof -
  have "\<And>i. i < length forbidden \<Longrightarrow>
          contains (forbidden ! i) (strip (lower sql)) = contains (forbidden ! i) (lower sql)"
    by (simp add: forbidden_clean)
  then show ?thesis
    unfolding find_Some_iff
    by (metis (no_types, lifting) less_trans)
qed

lemma select_head: "startswith t ''select'' \<Longrightarrow> \<exists>t'. t = CHR ''s'' # t'"
  by (cases t) (auto simp: startswith_def)

lemma semis_kept:
  assumes "startswith t ''select''" and "t = a @ CHR '';'' # b @ c # d" and "c \<noteq> CHR '';''"
  shows "contains '';'' (strip_chars t '';'')"
proof -
  obtain t' where t': "t = CHR ''s'' # t'"
    using select_head [OF assms(1)] by blast
  have 1: "dropWhile (\<lambda>x. x \<in> set '';'') t = t"
    using t' by simp
  have "rev t = rev d @ c # (rev b @ CHR '';'' # rev a)"
    using assms(2) by simp
  moreover have "\<not> c \<in> set '';''" using assms(3) by simp
  ultimately obtain b' where
    2: "dropWhile (\<lambda>x. x \<in> set '';'') (rev t) = b' @ c # (rev b @ CHR '';'' # rev a)"
    using dropWhile_keeps [of "\<lambda>x. x \<in> set '';''" c "rev d" "rev b @ CHR '';'' # rev a"]
    by auto
  have "strip_chars t '';'' = a @ '';'' @ (b @ c # rev b')"
    unfolding strip_chars_def 1 2 by simp
  then show ?thesis unfolding contains_iff by blast
qed


section \<open>Facts about the row filter\<close>

lemma filter_loop_eq:
  "filter_loop role_l username results filtered
     = filtered @ filter (keep_row role_l username) results"
  by (induction results arbitrary: filtered) simp_all

lemma post_filter_eq:
  "post_filter_results_for_role results role username =
     (if lower role = ''admin'' then results
      else filter (keep_row (lower role) username) results)"
  by (simp add: post_filter_results_for_role_def filter_loop_eq)

lemma keep_row_student:
  "keep_row ''student'' username r \<longleftrightarrow>
     \<not> (\<exists>v. map_of r ''ID'' = Some (SqlText v) \<and> v \<noteq> username) \<and>
     \<not> (\<exists>x. map_of r ''s_ID'' = Some x \<and> x \<noteq> SqlText username)"
  by (auto simp: keep_row_def other_student_def split: option.splits sql_value.splits)

lemma keep_row_teacher:
  "keep_row ''teacher'' username r \<longleftrightarrow>
     (\<forall>c \<in> {''ID'', ''i_ID''}. \<forall>v.
        map_of r c = Some (SqlText v) \<and> startswith v ''T'' \<longrightarrow> v = username)"
  by (auto simp: keep_row_def other_instructor_def split: option.splits sql_value.splits)

lemma keep_row_other:
  "role_l \<noteq> ''student'' \<Longrightarrow> role_l \<noteq> ''teacher'' \<Longrightarrow> keep_row role_l username r"
  by (simp add: keep_row_def)


section \<open>The claims\<close>

text \<open>
  C1, as the code has it. For the role student, the row filter removes exactly the rows
  whose \<open>ID\<close> column holds a string other than the caller's username, or whose \<open>s_ID\<close>
  column holds any value other than the caller's username. Every other row is
  returned unchanged and in order: the rows without an identity column, and also the rows
  whose \<open>ID\<close> holds a value that is not a string.
\<close>

theorem student_filter:
  assumes "lower role = ''student''"
  shows "post_filter_results_for_role results role username =
           filter (\<lambda>r. \<not> (\<exists>v. map_of r ''ID'' = Some (SqlText v) \<and> v \<noteq> username) \<and>
                        \<not> (\<exists>x. map_of r ''s_ID'' = Some x \<and> x \<noteq> SqlText username))
             results"
proof -
  have "post_filter_results_for_role results role username
          = filter (keep_row ''student'' username) results"
    using assms by (simp add: post_filter_eq)
  also have "keep_row ''student'' username =
      (\<lambda>r. \<not> (\<exists>v. map_of r ''ID'' = Some (SqlText v) \<and> v \<noteq> username) \<and>
           \<not> (\<exists>x. map_of r ''s_ID'' = Some x \<and> x \<noteq> SqlText username))"
    by (rule ext) (rule keep_row_student)
  finally show ?thesis .
qed

theorem student_filter_witness:
  "lower ''Student'' = ''student'' \<and>
   post_filter_results_for_role
     [[(''ID'', SqlText ''S002'')], [(''ID'', SqlText ''S001'')], [(''s_ID'', SqlNull)]]
     ''Student'' ''S001'' =
     filter (\<lambda>r. \<not> (\<exists>v. map_of r ''ID'' = Some (SqlText v) \<and> v \<noteq> ''S001'') \<and>
                  \<not> (\<exists>x. map_of r ''s_ID'' = Some x \<and> x \<noteq> SqlText ''S001''))
       [[(''ID'', SqlText ''S002'')], [(''ID'', SqlText ''S001'')], [(''s_ID'', SqlNull)]]"
proof -
  have h: "lower ''Student'' = ''student''" by code_simp
  show ?thesis by (rule conjI [OF h student_filter [OF h]])
qed

text \<open>
  C1 as stated fails: a row whose \<open>ID\<close> is \<open>NULL\<close> (as an outer join returns it) or an
  integer carries an identity column whose value differs from the username, and the
  filter keeps it, because the comparison is made for strings only.
\<close>

theorem student_filter_counterexample:
  "map_of [(''title'', SqlText ''Algorithms''), (''ID'', SqlNull)] ''ID'' = Some SqlNull \<and>
   map_of [(''ID'', SqlInt 12345), (''name'', SqlText ''Bob Smith'')] ''ID'' = Some (SqlInt 12345) \<and>
   post_filter_results_for_role
     [[(''title'', SqlText ''Algorithms''), (''ID'', SqlNull)],
      [(''ID'', SqlInt 12345), (''name'', SqlText ''Bob Smith'')]] ''student'' ''S001''
   = [[(''title'', SqlText ''Algorithms''), (''ID'', SqlNull)],
      [(''ID'', SqlInt 12345), (''name'', SqlText ''Bob Smith'')]]"
  by code_simp

text \<open>
  C2. Whenever the candidate references the table \<open>login_credentials\<close> or a column
  \<open>password\<close> as a whole word, in any case, the static policy returns a rejection
  message, for every role: the student message when the role is student; otherwise the
  table message when the table is referenced (the table check comes first), and the
  column message when only the column is.
\<close>

theorem credential_reference_rejected:
  assumes "whole_word_in ''login_credentials'' sql \<or> whole_word_in ''password'' sql"
  shows "is_sql_safe_for_role sql role username =
           Some (if lower role = ''student'' then StudentDenied
                 else if whole_word_in ''login_credentials'' sql
                      then TableDenied ''login_credentials''
                      else ColumnDenied ''password'')"
  using assms
  by (auto simp: is_sql_safe_for_role_def SENSITIVE_TABLES_def SENSITIVE_COLUMNS_ALWAYS_def
      student_denied_message_def search_login_credentials search_password Let_def)

theorem credential_reference_rejected_witness:
  "(whole_word_in ''login_credentials'' ''SELECT Password FROM Login_Credentials'' \<or>
    whole_word_in ''password'' ''SELECT Password FROM Login_Credentials'') \<and>
   is_sql_safe_for_role ''SELECT Password FROM Login_Credentials'' ''teacher'' ''T001'' =
     Some (if lower ''teacher'' = ''student'' then StudentDenied
           else if whole_word_in ''login_credentials'' ''SELECT Password FROM Login_Credentials''
                then TableDenied ''login_credentials''
                else ColumnDenied ''password'')"
proof -
  have "re_search_word ''password'' ''SELECT Password FROM Login_Credentials''"
    by code_simp
  then have h: "whole_word_in ''login_credentials'' ''SELECT Password FROM Login_Credentials'' \<or>
    whole_word_in ''password'' ''SELECT Password FROM Login_Credentials''"
    unfolding search_password by (rule disjI2)
  show ?thesis
    by (rule conjI [OF h credential_reference_rejected [OF h]])
qed

text \<open>
  C3, as the code has it. Whenever, in the trimmed candidate, a \<open>;\<close> is followed somewhere
  by a character other than \<open>;\<close>, the guard returns blocked. The reason is the
  multi-statement one exactly when the trimmed, lower-cased candidate begins with
  \<open>select\<close> and contains no forbidden keyword: the two earlier checks report first.
\<close>

theorem separator_blocked:
  assumes "strip sql = a @ CHR '';'' # b @ c # d" and "c \<noteq> CHR '';''"
  shows "blocked (ai_sql_guard sql) \<and>
         (message (ai_sql_guard sql) = Some MultipleStatements \<longleftrightarrow>
            startswith (strip (lower sql)) ''select'' \<and>
            (\<forall>k \<in> set forbidden. \<not> contains k (lower sql)))"
proof (cases "startswith (strip (lower sql)) ''select''")
  case False
  then show ?thesis by (simp add: guard_not_select)
next
  case True
  show ?thesis
  proof (cases "find (\<lambda>word. contains word (strip (lower sql))) forbidden")
    case (Some k)
    then have "k \<in> set forbidden \<and> contains k (strip (lower sql))"
      unfolding find_Some_iff by auto
    then have "\<exists>k \<in> set forbidden. contains k (lower sql)"
      using forbidden_clean by blast
    then show ?thesis using guard_keyword [OF True Some] by auto
  next
    case None
    then have "\<forall>k \<in> set forbidden. \<not> contains k (strip (lower sql))"
      unfolding find_None_iff by blast
    then have no_kw: "\<forall>k \<in> set forbidden. \<not> contains k (lower sql)"
      using forbidden_clean by blast
    have "strip (lower sql) = lower a @ CHR '';'' # lower b @ lower_char c # lower d"
      unfolding strip_lower assms(1) by (simp add: lower_def lower_char_semicolon)
    moreover have "lower_char c \<noteq> CHR '';''"
      using assms(2) by (simp add: lower_char_semicolon)
    ultimately have "contains '';'' (strip_chars (strip (lower sql)) '';'')"
      using semis_kept [OF True] by blast
    then have "ai_sql_guard sql =
        \<lparr>blocked = True, message = Some MultipleStatements, blocked_sql = Some sql\<rparr>"
      using guard_rest [OF True None] by simp
    then show ?thesis using True no_kw by simp
  qed
qed

theorem separator_blocked_witness:
  "strip ''SELECT 1; SELECT 2 '' = ''SELECT 1'' @ CHR '';'' # '' SELECT '' @ CHR ''2'' # [] \<and>
   CHR ''2'' \<noteq> CHR '';'' \<and>
   blocked (ai_sql_guard ''SELECT 1; SELECT 2 '') \<and>
   (message (ai_sql_guard ''SELECT 1; SELECT 2 '') = Some MultipleStatements \<longleftrightarrow>
      startswith (strip (lower ''SELECT 1; SELECT 2 '')) ''select'' \<and>
      (\<forall>k \<in> set forbidden. \<not> contains k (lower ''SELECT 1; SELECT 2 '')))"
proof -
  have h1: "strip ''SELECT 1; SELECT 2 ''
      = ''SELECT 1'' @ CHR '';'' # '' SELECT '' @ CHR ''2'' # []"
    by code_simp
  have h2: "CHR ''2'' \<noteq> CHR '';''"
    by simp
  show ?thesis
    by (rule conjI [OF h1 conjI [OF h2 separator_blocked [OF h1 h2]]])
qed

text \<open>
  C3 as stated fails twice. Both candidates below have a \<open>;\<close> before the last character
  of the trimmed text. The candidate of scenario D is rejected for its keyword \<open>DROP\<close>,
  not for being a multi-statement. The candidate ending in two separators is not blocked:
  \<open>strip(";")\<close> removes the whole trailing run.
\<close>

theorem separator_blocked_counterexample:
  "CHR '';'' \<in> set (butlast (strip
      ''SELECT name FROM student WHERE ID='X'; DROP TABLE student;'')) \<and>
   message (ai_sql_guard ''SELECT name FROM student WHERE ID='X'; DROP TABLE student;'')
     = Some (ForbiddenCommand ''DROP'') \<and>
   CHR '';'' \<in> set (butlast (strip ''SELECT 1;;'')) \<and>
   \<not> blocked (ai_sql_guard ''SELECT 1;;'')"
  by code_simp

text \<open>
  C4. For the role teacher the filter is meant to retain every row about a student and,
  of the rows owned by an instructor, only the caller's own: "Teacher: can see all
  students; only themselves from instructor-related rows". The code does not do this. It
  takes a value of \<open>ID\<close> or \<open>i_ID\<close> for an instructor's identity exactly when it is a
  string starting with \<open>T\<close>, while registration stores any username as the identity of
  a student or of an instructor. With a student registered as \<open>Tommy\<close> and an instructor
  registered as \<open>alice\<close>, the filter run for the teacher \<open>T001\<close> drops the student's row
  and returns the other instructor's row.
\<close>

theorem teacher_filter_failing_input:
  "post_filter_results_for_role
     [[(''ID'', SqlText ''Tommy''), (''name'', SqlText ''Tommy Lee''),
       (''dept_name'', SqlText ''CS'')],
      [(''ID'', SqlText ''alice''), (''name'', SqlText ''Alice Doe''),
       (''dept_name'', SqlText ''CS'')]]
     ''teacher'' ''T001''
   = [[(''ID'', SqlText ''alice''), (''name'', SqlText ''Alice Doe''),
       (''dept_name'', SqlText ''CS'')]]"
  by code_simp

text \<open>
  C5, as the code has it. When the generation client is not initialised, the endpoint
  returns status fail and the placeholder \<open>N/A\<close> as SQL for every question, without
  calling any collaborator. The message is the fixed AI-disabled one when the question
  contains no dangerous keyword, and the read-only refusal when it contains one, since
  the keyword check on the question comes first.
\<close>

theorem client_unavailable:
  assumes "client w = None"
  shows "ai_query w data =
           (\<lparr>status = ''fail'',
             response = (if list_ex (\<lambda>keyword. contains keyword (lower (data_query data)))
                              dangerous_keywords
                         then ReadOnlyRefusal else AIDisabled),
             sql_query = ''N/A''\<rparr>, [])"
  using assms by (simp add: ai_query_def)

theorem client_unavailable_witness:
  "client \<lparr>client = None, sqlite_master = Inr [], execute = (\<lambda>q. Inr [])\<rparr> = None \<and>
   ai_query \<lparr>client = None, sqlite_master = Inr [], execute = (\<lambda>q. Inr [])\<rparr>
     \<lparr>data_username = ''S001'', data_role = ''student'', data_query = ''What are my grades?''\<rparr>
   = (\<lparr>status = ''fail'',
       response =
         (if list_ex (\<lambda>keyword. contains keyword
                (lower (data_query \<lparr>data_username = ''S001'', data_role = ''student'',
                                    data_query = ''What are my grades?''\<rparr>)))
               dangerous_keywords
          then ReadOnlyRefusal else AIDisabled),
       sql_query = ''N/A''\<rparr>, [])"
proof -
  have h: "client \<lparr>client = None, sqlite_master = Inr [], execute = (\<lambda>q. Inr [])\<rparr> = None"
    by simp
  show ?thesis by (rule conjI [OF h client_unavailable [OF h]])
qed

text \<open>
  C5 as stated fails: with the client unavailable, a question containing \<open>delete\<close> is
  answered with the read-only refusal, not with the AI-disabled message.
\<close>

theorem client_unavailable_counterexample:
  "client \<lparr>client = None, sqlite_master = Inr [], execute = (\<lambda>q. Inr [])\<rparr> = None \<and>
   response (fst (ai_query \<lparr>client = None, sqlite_master = Inr [], execute = (\<lambda>q. Inr [])\<rparr>
     \<lparr>data_username = ''S001'', data_role = ''student'',
      data_query = ''Can you delete my enrollment in C003?''\<rparr>)) = ReadOnlyRefusal \<and>
   ReadOnlyRefusal \<noteq> AIDisabled"
  by code_simp

text \<open>
  C6, as the code has it. Whenever a forbidden keyword occurs in the candidate, as a
  whole word in any case or just as a substring of the lower-cased text, the guard
  returns blocked, together with the candidate. When the trimmed, lower-cased candidate
  begins with \<open>select\<close>, the message cites, in upper case, the first keyword of the list
  insert, update, delete, create, drop, alter, truncate that occurs as a substring;
  otherwise the message is the read-only one, which cites no keyword of the candidate.
\<close>

theorem keyword_blocked:
  assumes "k \<in> set forbidden" and "whole_word_in k sql \<or> contains k (lower sql)"
  shows "blocked (ai_sql_guard sql) \<and> blocked_sql (ai_sql_guard sql) = Some sql \<and>
         (if startswith (strip (lower sql)) ''select''
          then \<exists>i < length forbidden.
                 contains (forbidden ! i) (lower sql) \<and>
                 (\<forall>j < i. \<not> contains (forbidden ! j) (lower sql)) \<and>
                 message (ai_sql_guard sql) = Some (ForbiddenCommand (upper (forbidden ! i)))
          else message (ai_sql_guard sql) = Some ReadOnlyViolation)"
proof (cases "startswith (strip (lower sql)) ''select''")
  case False
  then show ?thesis by (simp add: guard_not_select)
next
  case True
  have "contains k (lower sql)"
    using assms(2) whole_word_contains by blast
  then have "contains k (strip (lower sql))"
    using assms(1) by (simp add: forbidden_clean)
  then have "find (\<lambda>word. contains word (strip (lower sql))) forbidden \<noteq> None"
    using assms(1) by (auto simp: find_None_iff)
  then obtain k' where f: "find (\<lambda>word. contains word (strip (lower sql))) forbidden = Some k'"
    by blast
  then obtain i where i: "i < length forbidden" "k' = forbidden ! i"
      "contains (forbidden ! i) (lower sql)" "\<forall>j < i. \<not> contains (forbidden ! j) (lower sql)"
    unfolding find_forbidden by blast
  have g: "ai_sql_guard sql =
       \<lparr>blocked = True, message = Some (ForbiddenCommand (upper k')), blocked_sql = Some sql\<rparr>"
    using True f by (rule guard_keyword)
  have "message (ai_sql_guard sql) = Some (ForbiddenCommand (upper (forbidden ! i)))"
    using g i(2) by simp
  then have "\<exists>i < length forbidden.
                 contains (forbidden ! i) (lower sql) \<and>
                 (\<forall>j < i. \<not> contains (forbidden ! j) (lower sql)) \<and>
                 message (ai_sql_guard sql) = Some (ForbiddenCommand (upper (forbidden ! i)))"
    using i by blast
  then show ?thesis using True g by simp
qed

theorem keyword_blocked_witness:
  "''drop'' \<in> set forbidden \<and>
   (whole_word_in ''drop'' ''SELECT 1 FROM student; drop table student'' \<or>
    contains ''drop'' (lower ''SELECT 1 FROM student; drop table student'')) \<and>
   blocked (ai_sql_guard ''SELECT 1 FROM student; drop table student'') \<and>
   blocked_sql (ai_sql_guard ''SELECT 1 FROM student; drop table student'')
     = Some ''SELECT 1 FROM student; drop table student'' \<and>
   (if startswith (strip (lower ''SELECT 1 FROM student; drop table student'')) ''select''
    then \<exists>i < length forbidden.
           contains (forbidden ! i) (lower ''SELECT 1 FROM student; drop table student'') \<and>
           (\<forall>j < i. \<not> contains (forbidden ! j)
                        (lower ''SELECT 1 FROM student; drop table student'')) \<and>
           message (ai_sql_guard ''SELECT 1 FROM student; drop table student'')
             = Some (ForbiddenCommand (upper (forbidden ! i)))
    else message (ai_sql_guard ''SELECT 1 FROM student; drop table student'')
           = Some ReadOnlyViolation)"
proof -
  have h1: "''drop'' \<in> set forbidden"
    by (simp add: forbidden_def)
  have "contains ''drop'' (lower ''SELECT 1 FROM student; drop table student'')"
    by code_simp
  then have h2: "whole_word_in ''drop'' ''SELECT 1 FROM student; drop table student'' \<or>
    contains ''drop'' (lower ''SELECT 1 FROM student; drop table student'')"
    by (rule disjI2)
  show ?thesis
    by (rule conjI [OF h1 conjI [OF h2 keyword_blocked [OF h1 h2]]])
qed

text \<open>
  C6 as stated fails: a candidate that starts with the whole word \<open>DROP\<close> gets the
  read-only message, and a select whose only whole-word keyword is \<open>drop\<close> gets the
  message citing \<open>INSERT\<close>, found inside the column name \<open>insert_date\<close>.
\<close>

theorem keyword_blocked_counterexample:
  "whole_word_in ''drop'' ''DROP TABLE student'' \<and>
   message (ai_sql_guard ''DROP TABLE student'') = Some ReadOnlyViolation \<and>
   whole_word_in ''drop'' ''SELECT insert_date FROM log WHERE op = 'drop' LIMIT 5'' \<and>
   message (ai_sql_guard ''SELECT insert_date FROM log WHERE op = 'drop' LIMIT 5'')
     = Some (ForbiddenCommand ''INSERT'')"
proof -
  have "re_search_word ''drop'' ''DROP TABLE student''"
    by code_simp
  then have a: "whole_word_in ''drop'' ''DROP TABLE student''"
    unfolding search_drop .
  have b: "message (ai_sql_guard ''DROP TABLE student'') = Some ReadOnlyViolation"
    by code_simp
  have "re_search_word ''drop'' ''SELECT insert_date FROM log WHERE op = 'drop' LIMIT 5''"
    by code_simp
  then have c: "whole_word_in ''drop'' ''SELECT insert_date FROM log WHERE op = 'drop' LIMIT 5''"
    unfolding search_drop .
  have d: "message (ai_sql_guard ''SELECT insert_date FROM log WHERE op = 'drop' LIMIT 5'')
     = Some (ForbiddenCommand ''INSERT'')"
    by code_simp
  show ?thesis using a b c d by blast
qed

text \<open>
  C7. For the role admin, in any case, the row filter returns its input: the same rows
  in the same order.
\<close>

theorem admin_noop:
  assumes "lower role = ''admin''"
  shows "post_filter_results_for_role results role username = results"
  using assms by (simp add: post_filter_eq)

theorem admin_noop_witness:
  "lower ''Admin'' = ''admin'' \<and>
   post_filter_results_for_role
     [[(''ID'', SqlText ''T002'')], [(''s_ID'', SqlText ''S001'')]] ''Admin'' ''root''
   = [[(''ID'', SqlText ''T002'')], [(''s_ID'', SqlText ''S001'')]]"
proof -
  have h: "lower ''Admin'' = ''admin''" by code_simp
  show ?thesis by (rule conjI [OF h admin_noop [OF h]])
qed

text \<open>
  C8. The row filter is idempotent: for every role, username and list of rows, filtering
  the filtered rows again changes nothing.
\<close>

theorem filter_idempotent:
  "post_filter_results_for_role (post_filter_results_for_role results role username) role username
     = post_filter_results_for_role results role username"
  by (simp add: post_filter_eq)

theorem filter_idempotent_witness:
  "post_filter_results_for_role
     (post_filter_results_for_role
        [[(''ID'', SqlText ''S002'')], [(''ID'', SqlText ''S001'')]] ''student'' ''S001'')
     ''student'' ''S001''
   = post_filter_results_for_role
        [[(''ID'', SqlText ''S002'')], [(''ID'', SqlText ''S001'')]] ''student'' ''S001''"
  by (rule filter_idempotent)

text \<open>
  C9. For a role whose lower-case form is none of admin, student and teacher, the row
  filter returns every input row unchanged, which is what admin receives.
\<close>

theorem unknown_role_unfiltered:
  assumes "lower role \<notin> {''admin'', ''student'', ''teacher''}"
  shows "post_filter_results_for_role results role username = results \<and>
         post_filter_results_for_role results role username
           = post_filter_results_for_role results ''admin'' username"
proof -
  have "filter (keep_row (lower role) username) results = results"
    using assms by (simp add: keep_row_other)
  then have 1: "post_filter_results_for_role results role username = results"
    using assms by (simp add: post_filter_eq)
  have "lower ''admin'' = ''admin''"
    by (simp add: lower_def lower_char_def)
  then have "post_filter_results_for_role results ''admin'' username = results"
    by (simp add: post_filter_eq)
  then show ?thesis using 1 by simp
qed

theorem unknown_role_unfiltered_witness:
  "lower ''Guest'' \<notin> {''admin'', ''student'', ''teacher''} \<and>
   post_filter_results_for_role
     [[(''ID'', SqlText ''S002'')], [(''ID'', SqlText ''T003''), (''salary'', SqlInt 78000)]]
     ''Guest'' ''S001''
   = [[(''ID'', SqlText ''S002'')], [(''ID'', SqlText ''T003''), (''salary'', SqlInt 78000)]] \<and>
   post_filter_results_for_role
     [[(''ID'', SqlText ''S002'')], [(''ID'', SqlText ''T003''), (''salary'', SqlInt 78000)]]
     ''Guest'' ''S001''
   = post_filter_results_for_role
     [[(''ID'', SqlText ''S002'')], [(''ID'', SqlText ''T003''), (''salary'', SqlInt 78000)]]
     ''admin'' ''S001''"
proof -
  have h: "lower ''Guest'' \<notin> {''admin'', ''student'', ''teacher''}"
    by code_simp
  show ?thesis by (rule conjI [OF h unknown_role_unfiltered [OF h]])
qed

text \<open>
  C10. When the lower-cased question contains one of the dangerous keywords as a
  substring, also inside a longer word, the endpoint returns status fail, the read-only
  refusal and the placeholder \<open>N/A\<close>, whatever the client is and without any call to the
  generator or the database.
\<close>

theorem dangerous_question_refused:
  assumes "list_ex (\<lambda>keyword. contains keyword (lower (data_query data))) dangerous_keywords"
  shows "ai_query w data =
           (\<lparr>status = ''fail'', response = ReadOnlyRefusal, sql_query = ''N/A''\<rparr>, [])"
  using assms by (simp add: ai_query_def)

theorem dangerous_question_refused_witness:
  "list_ex (\<lambda>keyword. contains keyword
      (lower (data_query \<lparr>data_username = ''S001'', data_role = ''student'',
                          data_query = ''Which grades were Updated last week?''\<rparr>)))
      dangerous_keywords \<and>
   ai_query \<lparr>client = Some (\<lambda>p. Inr (Some ''SELECT 1'')), sqlite_master = Inr [],
              execute = (\<lambda>q. Inr [])\<rparr>
     \<lparr>data_username = ''S001'', data_role = ''student'',
      data_query = ''Which grades were Updated last week?''\<rparr>
   = (\<lparr>status = ''fail'', response = ReadOnlyRefusal, sql_query = ''N/A''\<rparr>, [])"
proof -
  have h: "list_ex (\<lambda>keyword. contains keyword
      (lower (data_query \<lparr>data_username = ''S001'', data_role = ''student'',
                          data_query = ''Which grades were Updated last week?''\<rparr>)))
      dangerous_keywords"
    by code_simp
  show ?thesis by (rule conjI [OF h dangerous_question_refused [OF h]])
qed

end
